theory Spec2Isabelle
  imports Main "HOL-Library.AList"
begin

section \<open>The dispatcher of src/dispatcher.js\<close>

text \<open>
  The class \<^verbatim>\<open>Dispatcher\<close> keeps a table of registered callbacks, a dispatching
  flag, the list of open identifiers, a queue of deferred payloads and the pending map
  of the broadcast that was opened last. Its methods are short synchronous pieces of
  code glued together by bluebird promises (\<^verbatim>\<open>Promise.using\<close> with disposers,
  \<^verbatim>\<open>Promise.each\<close>). The synchronous pieces are embedded as functions on a record of
  the fields; the promise glue is embedded as a small machine whose threads are the
  batches in flight, each with a stack of the scopes it is inside.

  Conventions of the embedding:
  \<^item> an identifier \<open>n\<close> stands for the token \<^verbatim>\<open>'ID_' + n\<close> that \<^verbatim>\<open>register\<close> hands
    out; the identifiers given to \<^verbatim>\<open>waitFor\<close> are tokens of this shape, registered
    or not (names of properties that every JavaScript array inherits are left out);
  \<^item> a payload is opaque to the dispatcher; natural numbers stand for payloads;
  \<^item> the promise a call of \<^verbatim>\<open>dispatch\<close> returns is named by the payload of the call;
  \<^item> an error is a value: the three errors \<^verbatim>\<open>waitFor\<close> throws, and
    \<open>CallbackError m\<close> for \<^verbatim>\<open>new Error(m)\<close> thrown by a callback.
\<close>

type_synonym ident = nat
type_synonym payload = nat

datatype error =
    NotDispatching
  | UnknownDependency ident
  | CircularDependency
  | CallbackError string

datatype outcome = Resolved | Rejected error

text \<open>
  What a registered callback does when it is called. The callback runs dispatcher
  methods and ends by resolving or throwing; \<open>WaitFor ids k\<close> is
  \<^verbatim>\<open>return this.waitFor(ids).then(() => k)\<close>, so a rejection of \<^verbatim>\<open>waitFor\<close> is the
  rejection of the callback; \<open>Await k\<close> waits for something outside the dispatcher
  (a timer, a request) before it goes on with \<open>k\<close>.
\<close>

datatype prog =
    Done
  | Throw string
  | WaitFor "ident list" prog
  | Dispatch payload prog
  | Unregister ident prog
  | Await prog

type_synonym callback = "payload \<Rightarrow> prog"

text \<open>
  The scopes a batch is inside, innermost first: \<open>FBatch ids\<close> is the
  \<^verbatim>\<open>Promise.each\<close> loop of \<^verbatim>\<open>_dispatchBatch\<close> with the identifiers still to come
  (its disposer is the one of \<^verbatim>\<open>_batchPromise\<close>), \<open>FJob idx\<close> is the
  \<^verbatim>\<open>Promise.using(this._jobPromise(idx), ...)\<close> around one callback, and
  \<open>FThen k\<close> is the \<^verbatim>\<open>.then\<close> of a callback that waits for a sub-batch.
\<close>

datatype frame = FBatch "ident list" | FJob ident | FThen prog

datatype control =
    Loop
  | Enter ident
  | Exec prog
  | Ret outcome
  | Halted outcome

record thread =
  control :: control
  stack :: "frame list"
  label :: payload

datatype event =
    Invoke ident payload
  | Finish ident
  | Settle payload outcome

record dispatcher =
  lastID :: nat
  callbacks :: "(ident \<times> callback) list"
  isDispatchingFlag :: "bool option"
  openPromises :: "ident list"
  queued :: "payload list"
  pending :: "(ident \<times> payload) list"
  dispatchingId :: "ident option"

record machine = dispatcher +
  threads :: "thread list"
  trace :: "event list"

text \<open>
  A new dispatcher: \<^verbatim>\<open>_lastID = 1\<close>, the three class fields are empty, and
  \<^verbatim>\<open>_isDispatching\<close>, \<^verbatim>\<open>_pending\<close> and \<^verbatim>\<open>_dispatchingId\<close> are not set
  (\<open>None\<close> is JavaScript's \<^verbatim>\<open>undefined\<close>; the pending map is read only after a
  \<^verbatim>\<open>dispatch\<close> has set it). In the code \<^verbatim>\<open>_lastID\<close> is a variable of the module,
  shared by all dispatchers; one dispatcher is modelled here, so it is a field, and
  all that is used of it is that it only grows.
\<close>

definition init :: machine where
  "init = \<lparr> lastID = 1, callbacks = [], isDispatchingFlag = None, openPromises = [],
            queued = [], pending = [], dispatchingId = None, threads = [], trace = [] \<rparr>"

definition register :: "callback \<Rightarrow> 'a dispatcher_scheme \<Rightarrow> ident \<times> 'a dispatcher_scheme" where
  "register cb s =
     (lastID s,
      s\<lparr> callbacks := AList.update (lastID s) cb (callbacks s), lastID := lastID s + 1 \<rparr>)"

definition unregister :: "ident \<Rightarrow> 'a dispatcher_scheme \<Rightarrow> 'a dispatcher_scheme" where
  "unregister i s = s\<lparr> callbacks := AList.delete i (callbacks s) \<rparr>"

text \<open>\<^verbatim>\<open>return false !== this._isDispatching\<close>\<close>

definition isDispatching :: "'a dispatcher_scheme \<Rightarrow> bool" where
  "isDispatching s = (isDispatchingFlag s \<noteq> Some False)"

definition queue :: "payload \<Rightarrow> 'a dispatcher_scheme \<Rightarrow> 'a dispatcher_scheme" where
  "queue p s = s\<lparr> queued := queued s @ [p] \<rparr>"

text \<open>
  \<^verbatim>\<open>dispatch\<close>: queued while the flag is set; otherwise the flag is set, the open list
  is emptied, the pending map gets one entry per registered identifier (the closure
  over the payload), and \<^verbatim>\<open>_dispatchBatch(this._callbacks)\<close> starts a batch over the
  registered identifiers in the order of their registration. The batch runs later:
  here it is a new thread.
\<close>

definition dispatch :: "payload \<Rightarrow> machine \<Rightarrow> machine" where
  "dispatch p s =
     (if isDispatchingFlag s = Some True then queue p s
      else s\<lparr> isDispatchingFlag := Some True,
              openPromises := [],
              pending := map (\<lambda>k. (k, p)) (map fst (callbacks s)),
              threads := threads s @
                [\<lparr> control = Loop, stack = [FBatch (map fst (callbacks s))], label = p \<rparr>] \<rparr>)"

definition drain :: "machine \<Rightarrow> machine" where
  "drain s = (case queued s of [] \<Rightarrow> s | p # q \<Rightarrow> dispatch p (s\<lparr> queued := q \<rparr>))"

definition stopDispatching :: "machine \<Rightarrow> machine" where
  "stopDispatching s = drain (s\<lparr> isDispatchingFlag := Some False \<rparr>)"

text \<open>The disposer of \<^verbatim>\<open>_batchPromise\<close>.\<close>

definition batchCleanup :: "machine \<Rightarrow> machine" where
  "batchCleanup s = stopDispatching (s\<lparr> dispatchingId := None \<rparr>)"

text \<open>\<^verbatim>\<open>_postDispatch\<close>; a token is never the empty string, so \<^verbatim>\<open>if (idx)\<close> holds.\<close>

definition postDispatch :: "ident \<Rightarrow> 'a dispatcher_scheme \<Rightarrow> 'a dispatcher_scheme" where
  "postDispatch idx s =
     s\<lparr> pending := AList.delete idx (pending s),
        openPromises := filter (\<lambda>i. idx \<noteq> i) (openPromises s) \<rparr>"

text \<open>
  The \<^verbatim>\<open>forEach\<close> of \<^verbatim>\<open>waitFor\<close>: \<open>acc\<close> holds the keys of the local object
  \<^verbatim>\<open>pending\<close> in the order they were added. The test \<^verbatim>\<open>!this._callbacks[id]\<close> is
  a lookup in the table for a token \<^verbatim>\<open>'ID_n'\<close>. It is not one for the name of a
  property that the table inherits: \<^verbatim>\<open>_callbacks\<close> is an array, so for
  \<^verbatim>\<open>'push'\<close> or \<^verbatim>\<open>'constructor'\<close> the test finds a function and \<^verbatim>\<open>waitFor\<close>
  goes on as if the name were registered. Such names are not identifiers of this
  embedding, and what is stated about \<open>collect\<close> and \<open>waitFor\<close> is stated for tokens.
\<close>

fun collect :: "ident list \<Rightarrow> 'a dispatcher_scheme \<Rightarrow> ident list \<Rightarrow> error + ident list" where
  "collect [] s acc = Inr acc"
| "collect (i # ids) s acc =
     (if map_of (callbacks s) i = None then Inl (UnknownDependency i)
      else if i \<in> set (openPromises s) then Inl CircularDependency
      else collect ids s
             (if map_of (pending s) i \<noteq> None \<and> i \<notin> set acc then acc @ [i] else acc))"

text \<open>
  \<^verbatim>\<open>waitFor\<close> up to the call of \<^verbatim>\<open>_dispatchBatch\<close>: the error it throws (turned
  into a rejected promise by the decorator), or the identifiers of the sub-batch.
\<close>

definition waitFor :: "ident list \<Rightarrow> 'a dispatcher_scheme \<Rightarrow> error + ident list" where
  "waitFor ids s =
     (if isDispatchingFlag s \<noteq> Some True then Inl NotDispatching else collect ids s [])"

text \<open>
  One turn of a batch: a piece of code that runs without giving control back. bluebird
  calls every handler in a later turn than the one that settled its promise, so other
  batches, timers and calls of the owner can come between two turns, and not inside
  one. \<open>Loop\<close> is \<^verbatim>\<open>Promise.each\<close> about to take the next identifier;
  \<open>Enter idx\<close> is the handler of the job scope about to read \<^verbatim>\<open>this._pending[idx]\<close>;
  \<open>Exec k\<close> is a callback running; \<open>Ret r\<close> is a promise that has settled and whose
  scope has not been left yet; \<open>Halted r\<close> is a batch whose \<^verbatim>\<open>dispatch\<close> promise has
  settled.

  The library's part, as bluebird documents it: \<^verbatim>\<open>Promise.using\<close> runs the disposer
  of its resource when the promise of its handler has settled, resolved or rejected,
  and then settles the same way; \<^verbatim>\<open>Promise.each\<close> calls the iterator for one
  element after the other, waits for the promise it returns, and rejects at the first
  rejection without calling the iterator for the elements left.
\<close>

fun step :: "control \<Rightarrow> frame list \<Rightarrow> payload \<Rightarrow> machine \<Rightarrow> (control \<times> frame list) \<times> machine" where
  "step (Halted r) st l s = ((Halted r, st), s)"
| "step (Exec Done) st l s = ((Ret Resolved, st), s)"
| "step (Exec (Throw m)) st l s = ((Ret (Rejected (CallbackError m)), st), s)"
| "step (Exec (Await k)) st l s = ((Exec k, st), s)"
| "step (Exec (Unregister i k)) st l s = ((Exec k, st), unregister i s)"
| "step (Exec (Dispatch p k)) st l s = ((Exec k, st), dispatch p s)"
| "step (Exec (WaitFor ids k)) st l s =
     (case waitFor ids s of
        Inl e \<Rightarrow> ((Ret (Rejected e), st), s)
      | Inr [] \<Rightarrow> ((Exec k, st), s)
      | Inr (i # sub) \<Rightarrow> ((Loop, FBatch (i # sub) # FThen k # st), s))"
| "step Loop (FBatch (idx # rest) # st) l s =
     ((Enter idx, FJob idx # FBatch rest # st),
      s\<lparr> dispatchingId := Some idx, openPromises := openPromises s @ [idx] \<rparr>)"
| "step Loop (FBatch [] # st) l s = ((Ret Resolved, st), batchCleanup s)"
| "step Loop st l s = ((Loop, st), s)"
| "step (Enter idx) st l s =
     (case map_of (pending s) idx of
        None \<Rightarrow> ((Ret Resolved, st), s)
      | Some p \<Rightarrow>
          (case map_of (callbacks s) idx of
             None \<Rightarrow> ((Ret Resolved, st), s)
           | Some cb \<Rightarrow> ((Exec (cb p), st), s\<lparr> trace := trace s @ [Invoke idx p] \<rparr>)))"
| "step (Ret r) (FJob idx # st) l s =
     ((case r of Resolved \<Rightarrow> Loop | Rejected e \<Rightarrow> Ret r, st),
      (postDispatch idx s)\<lparr> trace := trace s @ [Finish idx] \<rparr>)"
| "step (Ret r) (FBatch ids # st) l s = ((Ret r, st), batchCleanup s)"
| "step (Ret r) (FThen k # st) l s =
     ((case r of Resolved \<Rightarrow> Exec k | Rejected e \<Rightarrow> Ret r, st), s)"
| "step (Ret r) [] l s = ((Halted r, []), s\<lparr> trace := trace s @ [Settle l r] \<rparr>)"

definition tick :: "nat \<Rightarrow> machine \<Rightarrow> machine" where
  "tick n s =
     (if n < length (threads s) then
        (let t = threads s ! n;
             r = step (control t) (stack t) (label t) s
         in (snd r)\<lparr> threads :=
              (threads (snd r))[n := t\<lparr> control := fst (fst r), stack := snd (fst r) \<rparr>] \<rparr>)
      else s)"

text \<open>
  What happens to a dispatcher: its owner calls a method, or one of the batches in
  flight takes a turn. Any order of turns is allowed here. The code's order is the
  one bluebird's scheduler fixes, which is not modelled: what holds for every order
  holds for the code's, and a run that is stated for one order is stated where the
  order is forced (one batch in flight), where the other batch is waiting for a timer,
  or for what the orders in question have in common.
\<close>

datatype action =
    Tick nat
  | CallDispatch payload
  | CallRegister callback
  | CallUnregister ident

fun perform :: "action \<Rightarrow> machine \<Rightarrow> machine" where
  "perform (Tick n) s = tick n s"
| "perform (CallDispatch p) s = dispatch p s"
| "perform (CallRegister cb) s = snd (register cb s)"
| "perform (CallUnregister i) s = unregister i s"

fun run :: "action list \<Rightarrow> machine \<Rightarrow> machine" where
  "run [] s = s"
| "run (a # as) s = run as (perform a s)"

text \<open>What is observed of a state: the batches in flight, and the payloads a callback has
  been called with so far.\<close>

definition shape :: "machine \<Rightarrow> (control \<times> frame list \<times> payload) list" where
  "shape s = map (\<lambda>t. (control t, stack t, label t)) (threads s)"

fun invoked :: "ident \<Rightarrow> event list \<Rightarrow> payload list" where
  "invoked i [] = []"
| "invoked i (Invoke j p # es) = (if j = i then p # invoked i es else invoked i es)"
| "invoked i (Finish j # es) = invoked i es"
| "invoked i (Settle p r # es) = invoked i es"


text \<open>An identifier that \<^verbatim>\<open>register\<close> has handed out and that is not registered.\<close>

definition gone :: "ident \<Rightarrow> machine \<Rightarrow> bool" where
  "gone i s = (map_of (callbacks s) i = None \<and> i < lastID s)"

text \<open>The calls of callbacks, in the order they were made.\<close>

fun calls :: "event list \<Rightarrow> (ident \<times> payload) list" where
  "calls [] = []"
| "calls (Invoke j p # es) = (j, p) # calls es"
| "calls (Finish j # es) = calls es"
| "calls (Settle p r # es) = calls es"




text \<open>
  The identifiers whose callbacks a batch is inside (the job scopes on its stack,
  innermost first), and the identifiers still to come in its innermost loop.
\<close>

fun jobs :: "frame list \<Rightarrow> ident list" where
  "jobs [] = []"
| "jobs (FJob i # st) = i # jobs st"
| "jobs (f # st) = jobs st"

fun topBatch :: "frame list \<Rightarrow> ident list" where
  "topBatch [] = []"
| "topBatch (FBatch ids # st) = ids"
| "topBatch (f # st) = topBatch st"

text \<open>A batch that has left all its scopes: its promise has settled, or is about to.\<close>

definition settledThread :: "thread \<Rightarrow> bool" where
  "settledThread t =
     (stack t = [] \<and> (case control t of Ret r \<Rightarrow> True | Halted r \<Rightarrow> True | _ \<Rightarrow> False))"

fun settledBut :: "nat \<Rightarrow> thread list \<Rightarrow> bool" where
  "settledBut n [] = True"
| "settledBut 0 (t # ts) = list_all settledThread ts"
| "settledBut (Suc n) (t # ts) = (settledThread t \<and> settledBut n ts)"

text \<open>
  A broadcast that has just been opened: the flag is set, batch \<open>n\<close> is about to take the
  first identifier of its list, in which no identifier occurs twice, it is inside no
  other scope, and no other batch is in flight.
\<close>

definition opened :: "machine \<Rightarrow> nat \<Rightarrow> bool" where
  "opened s n =
     (isDispatchingFlag s = Some True \<and> n < length (threads s) \<and>
      control (threads s ! n) = Loop \<and>
      stack (threads s ! n) = [FBatch (topBatch (stack (threads s ! n)))] \<and>
      distinct (topBatch (stack (threads s ! n))) \<and>
      settledBut n (threads s))"

text \<open>
  What stays true of an open broadcast until one of its batches is cleaned up: the
  callbacks batch \<open>n\<close> is inside are different ones and are all on the open list, and
  the identifiers still to come in the innermost loop are different from each other
  and from them.
\<close>

definition good :: "ident list \<Rightarrow> frame list \<Rightarrow> bool" where
  "good opn st =
     (distinct (jobs st) \<and> set (jobs st) \<subseteq> set opn \<and>
      distinct (topBatch st) \<and> set (topBatch st) \<inter> set (jobs st) = {})"

definition inBroadcast :: "machine \<Rightarrow> nat \<Rightarrow> bool" where
  "inBroadcast s n =
     (isDispatchingFlag s = Some True \<and> n < length (threads s) \<and>
      good (openPromises s) (stack (threads s ! n)) \<and> settledBut n (threads s))"

text \<open>
  The turns in which the disposer of \<^verbatim>\<open>_batchPromise\<close> runs, and the runs without such
  a turn: the owner may call any method and the batches may take any other turn.
\<close>

fun cleans :: "control \<Rightarrow> frame list \<Rightarrow> bool" where
  "cleans Loop (FBatch [] # st) = True"
| "cleans (Ret r) (FBatch ids # st) = True"
| "cleans c st = False"

definition cleaning :: "machine \<Rightarrow> nat \<Rightarrow> bool" where
  "cleaning s m =
     (m < length (threads s) \<and> cleans (control (threads s ! m)) (stack (threads s ! m)))"

fun calm :: "action list \<Rightarrow> machine \<Rightarrow> bool" where
  "calm [] s = True"
| "calm (Tick m # as) s = (\<not> cleaning s m \<and> calm as (tick m s))"
| "calm (a # as) s = calm as (perform a s)"

subsection \<open>Callbacks and dispatchers used as examples\<close>

definition resolves :: callback where
  "resolves p = Done"



definition waitsOnAll :: callback where
  "waitsOnAll p = WaitFor [3, 1, 2] Done"

definition waitsOnMany :: callback where
  "waitsOnMany p = WaitFor [2, 7, 1] Done"

definition unregistersSelf :: callback where
  "unregistersSelf p = Unregister 1 (WaitFor [1] Done)"

definition waitsOn2 :: callback where
  "waitsOn2 p = WaitFor [2] Done"

definition waitsThenAwaits :: callback where
  "waitsThenAwaits p = WaitFor [2] (Await Done)"

definition waitsOnGhostAndSelf :: callback where
  "waitsOnGhostAndSelf p = WaitFor [7, 1] Done"

definition waitsOnFirst :: callback where
  "waitsOnFirst p = (if p = 10 then WaitFor [2] Done else Await Done)"

definition quickOnFirst :: callback where
  "quickOnFirst p = (if p = 10 then Done else Await Done)"

text \<open>Callback 1 waits for callback 2 and, when that has run, once more; one payload is
  dispatched.\<close>

definition waitsTwice :: callback where
  "waitsTwice p = WaitFor [2] (WaitFor [2] Done)"

definition again :: machine where
  "again = run [CallRegister waitsTwice, CallRegister resolves, CallDispatch 10] init"

text \<open>Callback 1 waits for callback 2; one payload is dispatched.\<close>

definition nested :: machine where
  "nested = run [CallRegister waitsOn2, CallRegister resolves, CallDispatch 10] init"

text \<open>Callback 1 waits for callback 2 and then for a timer; two payloads are dispatched
  back to back.\<close>

definition overlap :: machine where
  "overlap =
     run [CallRegister waitsThenAwaits, CallRegister resolves, CallDispatch 10, CallDispatch 20] init"

text \<open>As \<open>nested\<close> for payload 10; for any other payload both callbacks wait for a timer.
  Two payloads are dispatched back to back.\<close>

definition twice :: machine where
  "twice =
     run [CallRegister waitsOnFirst, CallRegister quickOnFirst, CallDispatch 10, CallDispatch 20] init"


text \<open>Callback 1 waits for callback 2, which waits for callbacks 3, 1 and 2.\<close>

definition chain :: machine where
  "chain =
     run [CallRegister waitsOn2, CallRegister waitsOnAll, CallRegister resolves, CallDispatch 10] init"

text \<open>Callback 1 unregisters itself and then waits for itself.\<close>

definition selfless :: machine where
  "selfless = run [CallRegister unregistersSelf, CallDispatch 10] init"

text \<open>Callback 1 waits for callback 2, for an identifier that was never registered, and
  for itself.\<close>

definition many :: machine where
  "many = run [CallRegister waitsOnMany, CallRegister resolves, CallDispatch 10] init"

text \<open>Callback 1 waits for an identifier that was never registered and for itself.\<close>

definition ghost :: machine where
  "ghost = run [CallRegister waitsOnGhostAndSelf, CallDispatch 10] init"

text \<open>One callback, one payload.\<close>

definition single :: machine where
  "single = run [CallRegister resolves, CallDispatch 10] init"

text \<open>Two callbacks that return at once, one payload.\<close>

definition pair :: machine where
  "pair = run [CallRegister resolves, CallRegister resolves, CallDispatch 10] init"


section \<open>Properties\<close>


lemmas core =
  shape_def init_def register_def unregister_def isDispatching_def queue_def dispatch_def
  drain_def stopDispatching_def batchCleanup_def postDispatch_def waitFor_def tick_def
  numeral_eq_Suc

subsection \<open>The dispatching flag\<close>

text \<open>
  Claim C6: \<^verbatim>\<open>isDispatching()\<close> is true exactly while a broadcast is open. The code
  answers otherwise in two places. A dispatcher that has never dispatched has no
  \<^verbatim>\<open>_isDispatching\<close> field, and \<^verbatim>\<open>false !== undefined\<close> is true: the fresh
  dispatcher says it is dispatching. And in \<open>nested\<close>, after the eighth turn the
  sub-batch of \<^verbatim>\<open>waitFor\<close> has been disposed of, which cleared the flag, while
  callback 1 has not returned and identifier 2 is still to come in the loop.
\<close>

theorem C6_isDispatching_outside_broadcast:
  "isDispatching init \<and> threads init = [] \<and>
   \<not> isDispatching (run (replicate 8 (Tick 0)) nested) \<and>
   shape (run (replicate 8 (Tick 0)) nested) =
     [(Ret Resolved, [FThen Done, FJob 1, FBatch [2]], 10)]"
  by (simp add: core nested_def waitsOn2_def resolves_def)

subsection \<open>The cleanup of a sub-batch\<close>

text \<open>
  Claim C2: the stop-dispatching step runs once per broadcast, when the top-level batch
  finishes, and the cleanup of a \<^verbatim>\<open>waitFor\<close> sub-batch neither clears the flag nor
  drains the queue. In the code \<^verbatim>\<open>waitFor\<close> starts its sub-batch with the same
  \<^verbatim>\<open>_dispatchBatch\<close>, whose disposer calls \<^verbatim>\<open>_stopDispatching\<close> whatever batch it
  belongs to. In \<open>nested\<close> with a second payload queued, the seventh turn leaves the
  sub-batch of callback 1 at its end; the eighth turn, its cleanup, takes payload 20
  from the queue and opens its broadcast (a second batch, a new pending map) inside
  the broadcast of payload 10. Without a queued payload the same turn leaves the flag
  cleared (\<open>Some False\<close>) in the middle of the broadcast.
\<close>

theorem C2_sub_batch_cleanup_stops_dispatching:
  "shape (run (replicate 7 (Tick 0)) (dispatch 20 nested)) =
     [(Loop, [FBatch [], FThen Done, FJob 1, FBatch [2]], 10)] \<and>
   isDispatchingFlag (run (replicate 7 (Tick 0)) (dispatch 20 nested)) = Some True \<and>
   queued (run (replicate 7 (Tick 0)) (dispatch 20 nested)) = [20] \<and>
   pending (run (replicate 7 (Tick 0)) (dispatch 20 nested)) = [(1, 10)] \<and>
   shape (run (replicate 8 (Tick 0)) (dispatch 20 nested)) =
     [(Ret Resolved, [FThen Done, FJob 1, FBatch [2]], 10), (Loop, [FBatch [1, 2]], 20)] \<and>
   queued (run (replicate 8 (Tick 0)) (dispatch 20 nested)) = [] \<and>
   pending (run (replicate 8 (Tick 0)) (dispatch 20 nested)) = [(1, 20), (2, 20)] \<and>
   isDispatchingFlag (run (replicate 8 (Tick 0)) nested) = Some False \<and>
   shape (run (replicate 8 (Tick 0)) nested) =
     [(Ret Resolved, [FThen Done, FJob 1, FBatch [2]], 10)]"
  by (simp add: core nested_def waitsOn2_def resolves_def)

text \<open>
  After that cleanup the dispatcher denies that it is dispatching to the callback
  that is still running: in \<open>again\<close> the second \<^verbatim>\<open>waitFor\<close> of callback 1 is
  rejected with "Must be invoked while dispatching", and the broadcast settles with
  that error.
\<close>

lemma waitFor_after_sub_batch_cleanup:
  "shape (run (replicate 9 (Tick 0)) again) =
     [(Exec (WaitFor [2] Done), [FJob 1, FBatch [2]], 10)] \<and>
   waitFor [2] (run (replicate 9 (Tick 0)) again) = Inl NotDispatching \<and>
   trace (run (replicate 13 (Tick 0)) again) =
     [Invoke 1 10, Invoke 2 10, Finish 2, Finish 1, Settle 10 (Rejected NotDispatching)]"
  by (simp add: core again_def waitsTwice_def resolves_def)

subsection \<open>Two broadcasts at once\<close>

text \<open>
  Claim C1: at most one broadcast is open at a time, also while a callback is suspended
  in a \<^verbatim>\<open>waitFor\<close> sub-batch. In \<open>overlap\<close> callback 1 is called with payload 10,
  waits for callback 2, and then waits for a timer. The cleanup of its sub-batch
  opens the queued broadcast of payload 20. Up to that cleanup, the eighth turn,
  there is one batch and so one order of turns. After the ninth turn callback 1 is
  waiting for its timer; the second batch takes two turns and calls callback 1 with
  payload 20, while the call with payload 10 has not finished.
\<close>

theorem C1_second_broadcast_opens_inside_first:
  "shape (run (replicate 9 (Tick 0) @ [Tick 1, Tick 1]) overlap) =
     [(Exec (Await Done), [FJob 1, FBatch [2]], 10),
      (Exec (WaitFor [2] (Await Done)), [FJob 1, FBatch [2]], 20)] \<and>
   trace (run (replicate 9 (Tick 0) @ [Tick 1, Tick 1]) overlap) =
     [Invoke 1 10, Invoke 2 10, Finish 2, Invoke 1 20]"
  by (simp add: core overlap_def waitsThenAwaits_def resolves_def)

text \<open>
  Claim C4: a payload dispatched while another broadcast is open is queued, and no
  callback runs with it until every callback has finished with the earlier payload.
  The second call of \<^verbatim>\<open>dispatch\<close> in \<open>overlap\<close> is queued. The whole run, with the
  second batch taking its turns while callback 1 waits for its timer: both callbacks
  are called with payload 20 before callback 1 has finished with payload 10, and the
  loop of payload 10 then finds no pending entry for identifier 2.
\<close>

theorem C4_queued_payload_runs_before_first_finishes:
  "queued overlap = [20] \<and>
   trace (run (replicate 9 (Tick 0) @ replicate 9 (Tick 1) @
               replicate 8 (Tick 0) @ replicate 8 (Tick 1)) overlap) =
     [Invoke 1 10, Invoke 2 10, Finish 2, Invoke 1 20, Invoke 2 20, Finish 2,
      Finish 1, Finish 2, Settle 10 Resolved, Finish 1, Finish 2, Settle 20 Resolved] \<and>
   shape (run (replicate 9 (Tick 0) @ replicate 9 (Tick 1) @
               replicate 8 (Tick 0) @ replicate 8 (Tick 1)) overlap) =
     [(Halted Resolved, [], 10), (Halted Resolved, [], 20)]"
  by (simp add: core overlap_def waitsThenAwaits_def resolves_def)

text \<open>
  Claim C7: within one broadcast a callback is executed at most once, and an
  identifier consumed by a \<^verbatim>\<open>waitFor\<close> sub-batch is skipped when the loop of the
  parent batch reaches it. In \<open>twice\<close> the sub-batch of callback 1 calls callback 2
  with payload 10; its cleanup opens the queued broadcast of payload 20, which
  replaces the pending map. Callback 1 returns and the loop of the first batch cleans
  it up, which deletes the entry the second broadcast made for identifier 1. The loop
  then reaches identifier 2, finds the entry the second broadcast made for it, and
  calls callback 2 again, which waits for a timer. The loop of the second batch finds
  no entry for identifier 1, goes on to identifier 2, whose entry is still pending,
  and calls callback 2 a third time. Callback 1 has been called with payload 10
  only, callback 2 with payloads 10, 20 and 20, and both loops are inside callback 2.
  The calls are the same in every order of these turns in which the first batch has
  cleaned up callback 1 before the second looks for its entry.
\<close>

theorem C7_parent_loop_calls_consumed_identifier:
  "calls (trace (run (replicate 13 (Tick 0) @ replicate 5 (Tick 1)) twice)) =
     [(1, 10), (2, 10), (2, 20), (2, 20)] \<and>
   invoked 1 (trace (run (replicate 13 (Tick 0) @ replicate 5 (Tick 1)) twice)) = [10] \<and>
   invoked 2 (trace (run (replicate 13 (Tick 0) @ replicate 5 (Tick 1)) twice)) = [10, 20, 20] \<and>
   shape (run (replicate 13 (Tick 0) @ replicate 5 (Tick 1)) twice) =
     [(Exec (Await Done), [FJob 2, FBatch []], 10),
      (Exec (Await Done), [FJob 2, FBatch []], 20)]"
  by (simp add: core twice_def waitsOnFirst_def quickOnFirst_def)

subsection \<open>Facts about the parts\<close>

lemma invoked_append: "invoked i (xs @ ys) = invoked i xs @ invoked i ys"
  by (induction i xs rule: invoked.induct) auto



lemma delete_absent: "map_of xs i = None \<Longrightarrow> AList.delete i xs = xs"
  by (induction xs) (auto split: if_splits)

lemma dispatch_frame:
  "callbacks (dispatch p s) = callbacks s" "lastID (dispatch p s) = lastID s"
  "trace (dispatch p s) = trace s"
  by (simp_all add: dispatch_def queue_def)

lemma batchCleanup_frame:
  "callbacks (batchCleanup s) = callbacks s" "lastID (batchCleanup s) = lastID s"
  "trace (batchCleanup s) = trace s"
  by (simp_all add: batchCleanup_def stopDispatching_def drain_def dispatch_frame
      split: list.splits)

text \<open>
  The identifier of a callback is put on the open list when its turn starts, before the
  callback is called, and only \<^verbatim>\<open>_postDispatch\<close> of the same identifier or a
  \<^verbatim>\<open>dispatch\<close> that opens a broadcast takes it off.
\<close>

lemma open_when_entered:
  "idx \<in> set (openPromises (snd (step Loop (FBatch (idx # rest) # st) l s)))"
  by simp

subsection \<open>A callback that throws\<close>









subsection \<open>The checks of waitFor\<close>

lemma collect_unknown:
  "list_all (\<lambda>j. map_of (callbacks s) j \<noteq> None \<and> j \<notin> set (openPromises s)) pre \<Longrightarrow>
   map_of (callbacks s) i = None \<Longrightarrow>
   collect (pre @ i # post) s acc = Inl (UnknownDependency i)"
  by (induction pre arbitrary: acc) auto

lemma rejected_waitFor_turn:
  assumes "n < length (threads s)" and "control (threads s ! n) = Exec (WaitFor ids k)"
    and "waitFor ids s = Inl e"
  shows "tick n s =
           s\<lparr> threads := (threads s)[n := (threads s ! n)\<lparr> control := Ret (Rejected e) \<rparr>] \<rparr>"
  using assms by (simp add: tick_def)

subsection \<open>A callback that waits for itself\<close>

lemma settledBut_nth:
  "settledBut n ts \<Longrightarrow> m < length ts \<Longrightarrow> m \<noteq> n \<Longrightarrow> settledThread (ts ! m)"
  by (induction n ts arbitrary: m rule: settledBut.induct)
     (auto simp: list_all_length nth_Cons split: nat.splits)

lemma settledBut_update_self: "settledBut n ts \<Longrightarrow> settledBut n (ts[n := t])"
  by (induction n ts rule: settledBut.induct) auto

lemma list_all_update: "list_all P ts \<Longrightarrow> P t \<Longrightarrow> list_all P (ts[m := t])"
  by (induction ts arbitrary: m) (auto split: nat.splits)

lemma settledBut_update_other:
  "settledBut n ts \<Longrightarrow> m \<noteq> n \<Longrightarrow> settledThread t \<Longrightarrow> settledBut n (ts[m := t])"
  by (induction n ts arbitrary: m rule: settledBut.induct)
     (auto simp: list_all_update split: nat.splits)

lemma collect_sub:
  "collect ids s acc = Inr sub \<Longrightarrow> distinct acc \<Longrightarrow> set acc \<inter> set (openPromises s) = {} \<Longrightarrow>
   distinct sub \<and> set sub \<inter> set (openPromises s) = {}"
  by (induction ids arbitrary: acc) (auto split: if_splits)

lemma waitFor_sub:
  "waitFor ids s = Inr sub \<Longrightarrow> distinct sub \<and> set sub \<inter> set (openPromises s) = {}"
  using collect_sub[of ids s "[]" sub] by (auto simp: waitFor_def split: if_splits)

lemma jobs_subset: "FJob i \<in> set st \<Longrightarrow> i \<in> set (jobs st)"
  by (induction st rule: jobs.induct) auto

lemma good_step:
  assumes "isDispatchingFlag s = Some True" and "good (openPromises s) st" and "\<not> cleans c st"
  shows "isDispatchingFlag (snd (step c st l s)) = Some True \<and>
         good (openPromises (snd (step c st l s))) (snd (fst (step c st l s))) \<and>
         threads (snd (step c st l s)) = threads s"
  using assms
proof (induction c st l s rule: step.induct)
  case (7 ids k st l s)
  show ?case
  proof (cases "waitFor ids s")
    case (Inl e)
    then show ?thesis using 7 by simp
  next
    case (Inr sub)
    from waitFor_sub[OF Inr] have d: "distinct sub" and o: "set sub \<inter> set (openPromises s) = {}"
      by simp_all
    show ?thesis
    proof (cases sub)
      case Nil
      then show ?thesis using 7 Inr by simp
    next
      case (Cons a sub')
      have "set sub \<inter> set (jobs st) = {}" using o 7(2) by (auto simp: good_def)
      then show ?thesis using 7 Inr Cons d by (simp add: good_def)
    qed
  qed
qed (auto simp: good_def dispatch_def queue_def unregister_def postDispatch_def
       split: outcome.splits option.splits)


lemma settled_step:
  assumes "settledThread t"
  shows "step (control t) (stack t) (label t) s =
           ((case control t of Ret r \<Rightarrow> Halted r | c \<Rightarrow> c, []),
            (case control t of Ret r \<Rightarrow> s\<lparr> trace := trace s @ [Settle (label t) r] \<rparr> | c \<Rightarrow> s))"
  using assms by (cases "control t") (auto simp: settledThread_def)

lemma inBroadcast_tick:
  assumes "inBroadcast s n" and "\<not> cleaning s m"
  shows "inBroadcast (tick m s) n"
proof (cases "m < length (threads s)")
  case False
  then show ?thesis using assms(1) by (simp add: tick_def)
next
  case True
  note m = True
  show ?thesis
  proof (cases "m = n")
    case True
    have c: "\<not> cleans (control (threads s ! n)) (stack (threads s ! n))"
      using assms(2) m True by (simp add: cleaning_def)
    have f: "isDispatchingFlag s = Some True"
      and g: "good (openPromises s) (stack (threads s ! n))"
      and o: "settledBut n (threads s)" and nl: "n < length (threads s)"
      using assms(1) by (simp_all add: inBroadcast_def)
    from good_step[OF f g c, of "label (threads s ! n)"] show ?thesis
      using True nl o by (simp add: tick_def Let_def inBroadcast_def settledBut_update_self)
  next
    case False
    have o: "settledBut n (threads s)" using assms(1) by (simp add: inBroadcast_def)
    have st: "settledThread (threads s ! m)" by (rule settledBut_nth[OF o m False])
    show ?thesis
      using assms(1) m False st settled_step[OF st, of s]
      by (cases "control (threads s ! m)")
         (auto simp: tick_def Let_def inBroadcast_def settledThread_def
            intro!: settledBut_update_other)
  qed
qed

lemma inBroadcast_perform:
  assumes "inBroadcast s n" and "calm [a] s"
  shows "inBroadcast (perform a s) n"
proof (cases a)
  case (Tick m)
  then show ?thesis using assms inBroadcast_tick[of s n m] by simp
qed (use assms in \<open>auto simp: inBroadcast_def dispatch_def queue_def register_def unregister_def\<close>)

lemma calm_Cons: "calm (a # as) s = (calm [a] s \<and> calm as (perform a s))"
  by (cases a) auto

lemma inBroadcast_run: "inBroadcast s n \<Longrightarrow> calm acts s \<Longrightarrow> inBroadcast (run acts s) n"
proof (induction acts arbitrary: s)
  case Nil
  then show ?case by simp
next
  case (Cons a acts)
  from Cons.prems(2) have c1: "calm [a] s" and c2: "calm acts (perform a s)"
    using calm_Cons[of a acts s] by simp_all
  from Cons.IH[OF inBroadcast_perform[OF Cons.prems(1) c1] c2] show ?case by simp
qed

lemma opened_inBroadcast:
  assumes "opened s n"
  shows "inBroadcast s n"
proof -
  obtain ids where st: "stack (threads s ! n) = [FBatch ids]" and d: "distinct ids"
    using assms by (auto simp: opened_def)
  show ?thesis using assms d by (simp add: opened_def inBroadcast_def good_def st)
qed

lemma collect_registered_open:
  "list_all (\<lambda>j. map_of (callbacks s) j \<noteq> None) pre \<Longrightarrow>
   map_of (callbacks s) i \<noteq> None \<Longrightarrow> i \<in> set (openPromises s) \<Longrightarrow>
   collect (pre @ i # post) s acc = Inl CircularDependency"
  by (induction pre arbitrary: acc) auto

lemma opened_dispatch:
  assumes "isDispatchingFlag s \<noteq> Some True" and "list_all settledThread (threads s)"
    and "distinct (map fst (callbacks s))"
  shows "opened (dispatch p s) (length (threads s))"
proof -
  have "settledBut (length ts) (ts @ [t])" if "list_all settledThread ts" for ts t
    using that by (induction ts) auto
  then show ?thesis using assms by (simp add: opened_def dispatch_def distinct_map)
qed

text \<open>
  Claim C5, as stated: every \<^verbatim>\<open>waitFor(ids)\<close> made from within the callback of an
  identifier that is in \<open>ids\<close> rejects with the circular-dependency error. In
  \<open>ghost\<close> callback 1 calls \<^verbatim>\<open>waitFor\<close> with an unregistered identifier and with
  its own: after two turns callback 1 is running and on the open list, and the call
  rejects with the unknown-dependency error, which is the outcome of the broadcast.
  In \<open>selfless\<close> callback 1 unregisters itself and then waits for itself: the call
  rejects with the unknown-dependency error for its own identifier. The loop of
  \<^verbatim>\<open>waitFor\<close> checks the identifiers in the order given, the registration of each
  before the open list.
\<close>

theorem C5_unknown_identifier_is_reported_first:
  "shape (run [Tick 0, Tick 0] ghost) = [(Exec (WaitFor [7, 1] Done), [FJob 1, FBatch []], 10)] \<and>
   openPromises (run [Tick 0, Tick 0] ghost) = [1] \<and>
   waitFor [7, 1] (run [Tick 0, Tick 0] ghost) = Inl (UnknownDependency 7) \<and>
   trace (run (replicate 6 (Tick 0)) ghost) =
     [Invoke 1 10, Finish 1, Settle 10 (Rejected (UnknownDependency 7))] \<and>
   shape (run (replicate 3 (Tick 0)) selfless) =
     [(Exec (WaitFor [1] Done), [FJob 1, FBatch []], 10)] \<and>
   trace (run (replicate 7 (Tick 0)) selfless) =
     [Invoke 1 10, Finish 1, Settle 10 (Rejected (UnknownDependency 1))]"
  by (simp add: core ghost_def waitsOnGhostAndSelf_def selfless_def unregistersSelf_def)

text \<open>
  Claim C5, amended. A broadcast has been opened (\<open>opened s0 n\<close>: batch \<open>n\<close> is at the
  start of its list and no other batch is in flight; \<open>opened_dispatch\<close> is the case of
  \<^verbatim>\<open>dispatch\<close> called while no broadcast is open). Since then the owner has called
  any methods and the batch has taken any turns but the cleanup of a batch
  (\<open>calm acts s0\<close>). Now a callback calls \<^verbatim>\<open>waitFor(ids)\<close> from within the callback of
  \<open>i\<close>: the job scope of \<open>i\<close> is on the stack of the batch, innermost for a callback
  that waits for itself, further out for a callback that \<open>i\<close> is waiting for. If
  \<open>i\<close> is in \<open>ids\<close> and \<open>i\<close> and the identifiers listed before it are registered,
  the call rejects with the circular-dependency error. It takes one pass over
  \<open>ids\<close>, starts no sub-batch and changes nothing in the dispatcher: the turn only
  hands the rejection to the callback. That \<open>i\<close> is on the open list is not
  assumed: it follows from the push at the start of its turn and from the checks of
  the calls of \<^verbatim>\<open>waitFor\<close> made so far. After the cleanup of a sub-batch nothing is
  stated: that cleanup clears the flag (claim C2).
\<close>

theorem C5_waitFor_from_open_callback_is_circular:
  assumes "opened s0 n" and "calm acts s0"
    and "control (threads (run acts s0) ! n) = Exec (WaitFor (pre @ i # post) k)"
    and "FJob i \<in> set (stack (threads (run acts s0) ! n))"
    and "list_all (\<lambda>j. map_of (callbacks (run acts s0)) j \<noteq> None) (pre @ [i])"
  shows "waitFor (pre @ i # post) (run acts s0) = Inl CircularDependency \<and>
         tick n (run acts s0) =
           (run acts s0)\<lparr> threads := (threads (run acts s0))[n := (threads (run acts s0) ! n)
                 \<lparr> control := Ret (Rejected CircularDependency) \<rparr>] \<rparr>"
proof -
  define s where "s = run acts s0"
  have ib: "inBroadcast s n"
    unfolding s_def by (rule inBroadcast_run[OF opened_inBroadcast[OF assms(1)] assms(2)])
  then have f: "isDispatchingFlag s = Some True" and nl: "n < length (threads s)"
    and g: "good (openPromises s) (stack (threads s ! n))"
    by (simp_all add: inBroadcast_def)
  have "i \<in> set (jobs (stack (threads s ! n)))"
    using assms(4) by (simp add: s_def jobs_subset)
  then have io: "i \<in> set (openPromises s)" using g by (auto simp: good_def)
  have r: "list_all (\<lambda>j. map_of (callbacks s) j \<noteq> None) pre" and ri: "map_of (callbacks s) i \<noteq> None"
    using assms(5) by (simp_all add: s_def)
  have w: "waitFor (pre @ i # post) s = Inl CircularDependency"
    using f collect_registered_open[OF r ri io] by (simp add: waitFor_def)
  have "tick n s = s\<lparr> threads := (threads s)[n := (threads s ! n)
                 \<lparr> control := Ret (Rejected CircularDependency) \<rparr>] \<rparr>"
    by (rule rejected_waitFor_turn[OF nl assms(3)[folded s_def] w])
  then show ?thesis using w by (simp add: s_def)
qed

text \<open>
  Claim C5, amended, at \<open>chain\<close>: callback 1 waits for callback 2, which waits for
  callbacks 3, 1 and 2. After five turns callback 2 is about to make that call inside
  the sub-batch of callback 1; the job scope of callback 1 is the outer one.
  Callback 3 is registered and not open, callback 1 is reported as circular, and the
  rejection passes through both callbacks to the outcome of the broadcast.
\<close>

theorem C5_waitFor_from_open_callback_is_circular_witness:
  "opened chain 0 \<and> calm (replicate 5 (Tick 0)) chain \<and>
   shape (run (replicate 5 (Tick 0)) chain) =
     [(Exec (WaitFor [3, 1, 2] Done),
       [FJob 2, FBatch [], FThen Done, FJob 1, FBatch [2, 3]], 10)] \<and>
   map fst (callbacks (run (replicate 5 (Tick 0)) chain)) = [1, 2, 3] \<and>
   waitFor [3, 1, 2] (run (replicate 5 (Tick 0)) chain) = Inl CircularDependency \<and>
   shape (tick 0 (run (replicate 5 (Tick 0)) chain)) =
     [(Ret (Rejected CircularDependency),
       [FJob 2, FBatch [], FThen Done, FJob 1, FBatch [2, 3]], 10)] \<and>
   pending (tick 0 (run (replicate 5 (Tick 0)) chain)) = [(1, 10), (2, 10), (3, 10)] \<and>
   openPromises (tick 0 (run (replicate 5 (Tick 0)) chain)) = [1, 2] \<and>
   trace (run (replicate 12 (Tick 0)) chain) =
     [Invoke 1 10, Invoke 2 10, Finish 2, Finish 1, Settle 10 (Rejected CircularDependency)]"
  using C5_waitFor_from_open_callback_is_circular
          [of chain 0 "replicate 5 (Tick 0)" "[3]" 1 "[2]" Done]
  by (simp add: core chain_def waitsOn2_def waitsOnAll_def resolves_def
        opened_def cleaning_def)

subsection \<open>An identifier that is not registered\<close>

text \<open>
  Claim C8, as stated: every \<^verbatim>\<open>waitFor\<close> whose identifiers include one that is not
  registered rejects with an error that names it. The check of the dispatching flag
  comes first: on a dispatcher that has never dispatched, and on one whose broadcast
  has finished, \<^verbatim>\<open>waitFor(['ID_7'])\<close> rejects with "Must be invoked while
  dispatching". And an open identifier listed before the unregistered one is
  reported instead: in \<open>ghost\<close>, while callback 1 runs, \<^verbatim>\<open>waitFor(['ID_1', 'ID_7'])\<close>
  rejects as circular.
\<close>

theorem C8_unregistered_identifier_is_not_named:
  "waitFor [7] init = Inl NotDispatching \<and>
   map fst (callbacks (run (replicate 6 (Tick 0)) single)) = [1] \<and>
   shape (run (replicate 6 (Tick 0)) single) = [(Halted Resolved, [], 10)] \<and>
   waitFor [7] (run (replicate 6 (Tick 0)) single) = Inl NotDispatching \<and>
   isDispatchingFlag (run [Tick 0, Tick 0] ghost) = Some True \<and>
   map fst (callbacks (run [Tick 0, Tick 0] ghost)) = [1] \<and>
   waitFor [1, 7] (run [Tick 0, Tick 0] ghost) = Inl CircularDependency"
  by (simp add: core single_def ghost_def waitsOnGhostAndSelf_def resolves_def)

text \<open>
  Claim C8, amended: a call \<^verbatim>\<open>waitFor(ids)\<close> made while the dispatching flag is set
  rejects with the error that names \<open>i\<close> ("\<open>i\<close> does not map to a registered
  callback") when \<open>i\<close> is an unregistered token, so that \<^verbatim>\<open>this._callbacks[i]\<close> is
  undefined, and is the first identifier of \<open>ids\<close> that fails a check, that is
  when every identifier before it is registered and not open. The failed call
  changes nothing in the dispatcher: the pending map, the open list and every other
  field are as before, and the turn only hands the rejection to the callback that
  made the call.
\<close>

theorem C8_waitFor_unregistered_identifier:
  assumes "isDispatchingFlag s = Some True"
    and "list_all (\<lambda>j. map_of (callbacks s) j \<noteq> None \<and> j \<notin> set (openPromises s)) pre"
    and "map_of (callbacks s) i = None"
    and "n < length (threads s)"
    and "control (threads s ! n) = Exec (WaitFor (pre @ i # post) k)"
  shows "waitFor (pre @ i # post) s = Inl (UnknownDependency i) \<and>
         tick n s =
           s\<lparr> threads := (threads s)[n := (threads s ! n)
                 \<lparr> control := Ret (Rejected (UnknownDependency i)) \<rparr>] \<rparr>"
proof -
  have w: "waitFor (pre @ i # post) s = Inl (UnknownDependency i)"
    using assms(1) collect_unknown[OF assms(2,3)] by (simp add: waitFor_def)
  from rejected_waitFor_turn[OF assms(4,5) w] w show ?thesis by simp
qed

text \<open>
  Claim C8, amended, at \<open>many\<close>: callback 1 calls
  \<^verbatim>\<open>waitFor(['ID_2', 'ID_7', 'ID_1'])\<close>. Callback 2 is registered and not open,
  identifier 7 is not registered: the call rejects naming identifier 7, and the
  pending map and the open list are as they were.
\<close>

theorem C8_waitFor_unregistered_identifier_witness:
  "isDispatchingFlag (run [Tick 0, Tick 0] many) = Some True \<and>
   map fst (callbacks (run [Tick 0, Tick 0] many)) = [1, 2] \<and>
   shape (run [Tick 0, Tick 0] many) =
     [(Exec (WaitFor [2, 7, 1] Done), [FJob 1, FBatch [2]], 10)] \<and>
   waitFor [2, 7, 1] (run [Tick 0, Tick 0] many) = Inl (UnknownDependency 7) \<and>
   shape (tick 0 (run [Tick 0, Tick 0] many)) =
     [(Ret (Rejected (UnknownDependency 7)), [FJob 1, FBatch [2]], 10)] \<and>
   pending (tick 0 (run [Tick 0, Tick 0] many)) = [(1, 10), (2, 10)] \<and>
   pending (run [Tick 0, Tick 0] many) = [(1, 10), (2, 10)] \<and>
   openPromises (tick 0 (run [Tick 0, Tick 0] many)) = [1] \<and>
   openPromises (run [Tick 0, Tick 0] many) = [1]"
  using C8_waitFor_unregistered_identifier
          [of "run [Tick 0, Tick 0] many" "[2]" 7 0 "[1]" Done]
  by (simp add: core many_def waitsOnMany_def resolves_def)

subsection \<open>Unregistering\<close>

lemma gone_step:
  "gone i s \<Longrightarrow> gone i (snd (step c st l s)) \<and>
     invoked i (trace (snd (step c st l s))) = invoked i (trace s)"
  by (induction c st l s rule: step.induct)
     (auto simp: gone_def dispatch_frame batchCleanup_frame unregister_def postDispatch_def
        delete_conv invoked_append split: sum.splits list.splits option.splits)

lemma gone_tick:
  "gone i s \<Longrightarrow> gone i (tick n s) \<and> invoked i (trace (tick n s)) = invoked i (trace s)"
  using gone_step[of i s "control (threads s ! n)" "stack (threads s ! n)" "label (threads s ! n)"]
  by (simp add: tick_def Let_def gone_def)

lemma gone_perform:
  assumes "gone i s"
  shows "gone i (perform a s) \<and> invoked i (trace (perform a s)) = invoked i (trace s)"
proof (cases a)
  case (Tick n)
  then show ?thesis using gone_tick[OF assms, of n] by simp
qed (use assms in \<open>auto simp: dispatch_frame gone_def register_def unregister_def
        update_conv delete_conv\<close>)

lemma gone_run:
  "gone i s \<Longrightarrow> gone i (run acts s) \<and> invoked i (trace (run acts s)) = invoked i (trace s)"
proof (induction acts arbitrary: s)
  case Nil
  then show ?case by simp
next
  case (Cons a acts)
  from gone_perform[OF Cons.prems, of a]
  have g: "gone i (perform a s)" and t: "invoked i (trace (perform a s)) = invoked i (trace s)"
    by simp_all
  from Cons.IH[OF g] t show ?case by simp
qed

text \<open>
  Claim C9: after \<^verbatim>\<open>unregister(id)\<close> no later \<^verbatim>\<open>dispatch\<close> calls the callback of
  \<open>id\<close> again, also when \<open>id\<close> still has an entry in the pending map; and
  \<^verbatim>\<open>unregister\<close> is idempotent and harmless on an unknown identifier. Here \<open>i\<close> is
  an identifier that \<^verbatim>\<open>register\<close> has handed out (\<open>i < lastID s\<close>), \<open>s\<close> is any
  state of the dispatcher, with any batches in flight and any pending map, and
  \<open>acts\<close> is anything that happens afterwards: calls of \<^verbatim>\<open>dispatch\<close>,
  \<^verbatim>\<open>register\<close> and \<^verbatim>\<open>unregister\<close> and turns of the batches in any order. The
  list of payloads the callback of \<open>i\<close> has been called with does not grow.
  Unregistering twice is unregistering once, and unregistering an identifier that is
  not registered leaves the dispatcher as it is.
\<close>

theorem C9_unregistered_callback_is_never_invoked:
  assumes "i < lastID s"
  shows "invoked i (trace (run acts (unregister i s))) = invoked i (trace s) \<and>
         unregister i (unregister i s) = unregister i s \<and>
         unregister i s =
           (if map_of (callbacks s) i = None then s
            else s\<lparr> callbacks := AList.delete i (callbacks s) \<rparr>)"
proof -
  have "gone i (unregister i s)"
    using assms by (simp add: gone_def unregister_def delete_conv)
  from gone_run[OF this, of acts]
  have "invoked i (trace (run acts (unregister i s))) = invoked i (trace (unregister i s))"
    by simp
  moreover have "trace (unregister i s) = trace s"
    by (simp add: unregister_def)
  ultimately show ?thesis
    by (simp add: unregister_def delete_idem delete_absent)
qed

text \<open>
  Claim C9 at \<open>pair\<close>: payload 10 has been dispatched to two callbacks and both have
  a pending entry; callback 2 is unregistered before the batch takes its first turn.
  The batch runs to its end and calls callback 1 only.
\<close>

theorem C9_unregistered_callback_is_never_invoked_witness:
  "2 < lastID pair \<and> pending pair = [(1, 10), (2, 10)] \<and>
   invoked 2 (trace (run (replicate 9 (Tick 0)) (unregister 2 pair))) = invoked 2 (trace pair) \<and>
   trace (run (replicate 9 (Tick 0)) (unregister 2 pair)) =
     [Invoke 1 10, Finish 1, Finish 2, Settle 10 Resolved] \<and>
   map fst (callbacks (unregister 2 (unregister 2 pair))) = [1]"
  using C9_unregistered_callback_is_never_invoked [of 2 pair "replicate 9 (Tick 0)"]
  by (simp add: core pair_def resolves_def)

subsection \<open>A broadcast without callbacks\<close>









end
